theory Spec2Isabelle
  imports Main "HOL-Library.Word"
begin

unbundle bit_operations_syntax

section \<open>ToolsLibraryHelper.cpp: EnumerateUSBDevices\<close>

text \<open>
  The exported function \<^verbatim>\<open>EnumerateUSBDevices\<close> asks the SetupDi API for the devices of one
  interface class, counts them in a first loop, allocates an array of that many
  \<^verbatim>\<open>EnumeratedUSBDevice\<close> structures and fills it in a second, nested loop (devices, then the
  interfaces of each device).

  The model is a shallow embedding with explicit state passing. Everything the operating
  system and the allocator answer during one call is collected in a \<open>world\<close> value, so that
  the function of the source is a total function of the world and of the class identifier.
  The calls that the function makes are recorded, in the order in which they happen, in the
  \<open>trace\<close> field of the state; the claims on resource handling are stated on that trace.
\<close>

subsection \<open>Windows types and constants\<close>

type_synonym dword = "32 word"
type_synonym hresult = "32 word"
type_synonym guid = "128 word"

text \<open>
  A \<^verbatim>\<open>LPWSTR\<close> that is not null points to a zero-terminated string of 16-bit characters; the
  model keeps the characters before the terminator. A null pointer is \<open>None\<close>.
\<close>

type_synonym wstring = "16 word list"

abbreviation S_OK :: hresult where
  "S_OK \<equiv> 0"

definition E_OUTOFMEMORY :: hresult where
  "E_OUTOFMEMORY = 0x8007000E"

text \<open>
  The macro of the Windows SDK (winerror.h), with \<^verbatim>\<open>FACILITY_WIN32 = 7\<close>:
  \<^verbatim>\<open>(HRESULT)(x) <= 0 ? (HRESULT)(x) : (HRESULT)(((x) & 0x0000FFFF) | (FACILITY_WIN32 << 16) | 0x80000000)\<close>
\<close>

definition HRESULT_FROM_WIN32 :: "dword \<Rightarrow> hresult" where
  "HRESULT_FROM_WIN32 x = (if sint x \<le> 0 then x else (x AND 0x0000FFFF) OR 0x80070000)"

text \<open>
  \<^verbatim>\<open>HError()\<close> is \<^verbatim>\<open>HRESULT_FROM_WIN32(GetLastError())\<close>; the value of \<^verbatim>\<open>GetLastError()\<close> is an
  answer of the operating system and therefore an argument here.
\<close>

definition HError :: "dword \<Rightarrow> hresult" where
  "HError lastError = HRESULT_FROM_WIN32 lastError"

text \<open>
  \<^verbatim>\<open>sizeof(EnumeratedUSBDevice)\<close>: a 16-byte GUID and a pointer, in a 64-bit build. Only the fact
  that it is positive matters below.
\<close>

definition sizeof_EnumeratedUSBDevice :: nat where
  "sizeof_EnumeratedUSBDevice = 24"

subsection \<open>The output structure\<close>

record EnumeratedUSBDevice =
  guidInterface :: guid
  wszInterfacePath :: "wstring option"

text \<open>A slot after \<^verbatim>\<open>Zero(pResult, cbResult)\<close>: all bytes zero.\<close>

definition zeroed :: EnumeratedUSBDevice where
  "zeroed = \<lparr>guidInterface = 0, wszInterfacePath = None\<rparr>"

subsection \<open>The environment of one call\<close>

text \<open>
  What the system answers for one device interface, in the order of the calls of the inner
  loop body (source lines 119 to 164):
  \<^item> \<open>cbRequired\<close>: the size that the first \<^verbatim>\<open>SetupDiGetDeviceInterfaceDetailW\<close> reports;
  \<^item> \<open>detail_alloc\<close>: whether \<^verbatim>\<open>CoTaskMemAlloc(cbRequired)\<close> returns a block;
  \<^item> \<open>detail\<close>: the second \<^verbatim>\<open>SetupDiGetDeviceInterfaceDetailW\<close>: \<open>Inr\<close> the \<^verbatim>\<open>DevicePath\<close> when it
    returns TRUE, \<open>Inl\<close> the value of \<^verbatim>\<open>GetLastError()\<close> when it returns FALSE;
  \<^item> \<open>copy_alloc\<close>: whether the \<^verbatim>\<open>CoTaskMemAlloc\<close> inside \<^verbatim>\<open>AllocCopyString\<close> returns a block;
  \<^item> \<open>create_file\<close>: \<open>None\<close> when \<^verbatim>\<open>CreateFile\<close> returns a handle, \<open>Some\<close> the value of
    \<^verbatim>\<open>GetLastError()\<close> when it returns \<^verbatim>\<open>INVALID_HANDLE_VALUE\<close>.
\<close>

record interface =
  cbRequired :: nat
  detail_alloc :: bool
  detail :: "dword + wstring"
  copy_alloc :: bool
  create_file :: "dword option"

text \<open>
  What the system answers for the whole call:
  \<^item> \<open>class_devs\<close>: \<^verbatim>\<open>SetupDiGetClassDevsW\<close>: \<open>Inl\<close> the last error when it returns
    \<^verbatim>\<open>INVALID_HANDLE_VALUE\<close>, otherwise \<open>Inr\<close> the device information set: one entry per device,
    holding the interfaces of the requested class that the device exposes.
    \<^verbatim>\<open>SetupDiEnumDeviceInfo\<close> at ordinal \<open>i\<close> returns TRUE exactly when \<open>i\<close> is below the number of
    devices, and \<^verbatim>\<open>SetupDiEnumDeviceInterfaces\<close> at index \<open>j\<close> exactly when \<open>j\<close> is below the number
    of interfaces of the device: the set does not change during the call;
  \<^item> \<open>result_alloc\<close>: whether \<^verbatim>\<open>CoTaskMemAlloc(cbResult)\<close> returns a block.
\<close>

record world =
  class_devs :: "dword + interface list list"
  result_alloc :: bool

subsection \<open>State and trace\<close>

datatype event =
    SetupDiGetClassDevs bool
  | SetupDiEnumDeviceInfo nat bool
  | CoTaskMemAlloc_result nat bool
  | StoreGuid nat
  | SetupDiEnumDeviceInterfaces nat nat bool
  | SetupDiGetDeviceInterfaceDetail_size nat
  | CoTaskMemAlloc_detail nat bool
  | SetupDiGetDeviceInterfaceDetail bool
  | CoTaskMemAlloc_string bool
  | StorePath nat
  | CreateFile bool
  | CloseHandle
  | CoTaskMemFree_detail
  | SetupDiDestroyDeviceInfoList

text \<open>
  The local variables that the three iterations change: \<open>hr\<close>, the contents of the block \<open>pResult\<close>
  (one entry per allocated slot), and the trace. A store through \<^verbatim>\<open>pResult[i]\<close> with \<open>i\<close> not
  below the number of allocated slots lies outside the block: it is undefined behaviour in C++,
  and the model records its index in \<open>overrun\<close> and leaves the block as it is.
\<close>

record state =
  hr :: hresult
  pResult :: "EnumeratedUSBDevice list"
  overrun :: "nat list"
  trace :: "event list"

definition log :: "event \<Rightarrow> state \<Rightarrow> state" where
  "log e s = s\<lparr>trace := trace s @ [e]\<rparr>"

text \<open>\<^verbatim>\<open>pResult[iResult].guidInterface = guidInterfaceClass\<close> (line 107).\<close>

definition store_guid :: "nat \<Rightarrow> guid \<Rightarrow> state \<Rightarrow> state" where
  "store_guid i g s =
     log (StoreGuid i)
       (if i < length (pResult s)
        then s\<lparr>pResult := (pResult s)[i := (pResult s ! i)\<lparr>guidInterface := g\<rparr>]\<rparr>
        else s\<lparr>overrun := overrun s @ [i]\<rparr>)"

text \<open>\<^verbatim>\<open>pResult[iResult].wszInterfacePath = ...\<close> (line 131).\<close>

definition store_path :: "nat \<Rightarrow> wstring option \<Rightarrow> state \<Rightarrow> state" where
  "store_path i p s =
     log (StorePath i)
       (if i < length (pResult s)
        then s\<lparr>pResult := (pResult s)[i := (pResult s ! i)\<lparr>wszInterfacePath := p\<rparr>]\<rparr>
        else s\<lparr>overrun := overrun s @ [i]\<rparr>)"

subsection \<open>The functions of the source\<close>

text \<open>
  \<^verbatim>\<open>AllocCopyString\<close> (lines 30 to 37): a null pointer when the allocation fails, otherwise a
  copy of the string.
\<close>

definition AllocCopyString :: "bool \<Rightarrow> wstring \<Rightarrow> wstring option" where
  "AllocCopyString alloc_ok wsz = (if alloc_ok then Some wsz else None)"

text \<open>
  The body of the inner loop for one interface that \<^verbatim>\<open>SetupDiEnumDeviceInterfaces\<close> has found
  (lines 119 to 164). The \<^verbatim>\<open>__finally\<close> of line 158 frees the detail buffer on every path through
  the \<^verbatim>\<open>__try\<close> block, which is entered only when the buffer was allocated.
\<close>

definition interface_body :: "interface \<Rightarrow> nat \<Rightarrow> state \<Rightarrow> state" where
  "interface_body ifc iResult s =
     (let s1 = log (SetupDiGetDeviceInterfaceDetail_size (cbRequired ifc)) s;
          s2 = log (CoTaskMemAlloc_detail (cbRequired ifc) (detail_alloc ifc)) s1
      in if detail_alloc ifc then
           log CoTaskMemFree_detail
             (case detail ifc of
                Inr DevicePath \<Rightarrow>
                  (let s3 = log (SetupDiGetDeviceInterfaceDetail True) s2;
                       p = AllocCopyString (copy_alloc ifc) DevicePath;
                       s4 = store_path iResult p (log (CoTaskMemAlloc_string (copy_alloc ifc)) s3)
                   in if p \<noteq> None then
                        (case create_file ifc of
                           None \<Rightarrow> log CloseHandle (log (CreateFile True) s4)
                         | Some lastError \<Rightarrow> (log (CreateFile False) s4)\<lparr>hr := HError lastError\<rparr>)
                      else s4\<lparr>hr := E_OUTOFMEMORY\<rparr>)
              | Inl lastError \<Rightarrow>
                  (log (SetupDiGetDeviceInterfaceDetail False) s2)\<lparr>hr := HError lastError\<rparr>)
         else s2\<lparr>hr := E_OUTOFMEMORY\<rparr>)"

text \<open>
  The counters \<open>cDevices\<close>, \<open>iResult\<close> and \<open>iInterface\<close> are \<^verbatim>\<open>int\<close> variables that start at 0 and
  go up by one; they are natural numbers here, which is exact as long as a device information
  set has fewer than \<open>2^31\<close> entries.
\<close>

text \<open>
  The inner loop (lines 115 to 168): \<^verbatim>\<open>for (int iInterface = 0;; iInterface++)\<close>. Its only exit is
  the \<^verbatim>\<open>break\<close> of line 167, taken when there is no interface at index \<open>iInterface\<close>; the loop has
  no test of \<open>hr\<close>.
\<close>

function interface_loop :: "interface list \<Rightarrow> nat \<Rightarrow> nat \<Rightarrow> state \<Rightarrow> state" where
  "interface_loop ifcs iResult iInterface s =
     (if iInterface < length ifcs
      then interface_loop ifcs iResult (Suc iInterface)
             (interface_body (ifcs ! iInterface) iResult
                (log (SetupDiEnumDeviceInterfaces iResult iInterface True) s))
      else log (SetupDiEnumDeviceInterfaces iResult iInterface False) s)"
  by pat_completeness auto
termination
  by (relation "measure (\<lambda>(ifcs, iResult, iInterface, s). length ifcs - iInterface)") auto

text \<open>
  The fill loop (lines 104 to 172): \<^verbatim>\<open>for (int iResult = 0; !hr; iResult++)\<close>. The store of the
  class identifier (line 107) comes first in the body, before \<^verbatim>\<open>SetupDiEnumDeviceInfo\<close> is asked
  whether there is a device at ordinal \<open>iResult\<close> (line 111).
\<close>

function fill_loop :: "interface list list \<Rightarrow> guid \<Rightarrow> nat \<Rightarrow> state \<Rightarrow> state" where
  "fill_loop devs guidInterfaceClass iResult s =
     (if hr s \<noteq> S_OK then s
      else
        (let s1 = store_guid iResult guidInterfaceClass s
         in if iResult < length devs
            then fill_loop devs guidInterfaceClass (Suc iResult)
                   (interface_loop (devs ! iResult) iResult 0
                      (log (SetupDiEnumDeviceInfo iResult True) s1))
            else log (SetupDiEnumDeviceInfo iResult False) s1))"
  by pat_completeness auto
termination
  by (relation "measure (\<lambda>(devs, g, iResult, s). length devs - iResult)") auto

text \<open>The counting loop (lines 87 to 95): \<^verbatim>\<open>for (cDevices = 0 ;; cDevices++)\<close>.\<close>

function count_loop :: "interface list list \<Rightarrow> nat \<Rightarrow> state \<Rightarrow> nat \<times> state" where
  "count_loop devs cDevices s =
     (if cDevices < length devs
      then count_loop devs (Suc cDevices) (log (SetupDiEnumDeviceInfo cDevices True) s)
      else (cDevices, log (SetupDiEnumDeviceInfo cDevices False) s))"
  by pat_completeness auto
termination
  by (relation "measure (\<lambda>(devs, cDevices, s). length devs - cDevices)") auto

text \<open>
  What the caller sees when the function returns: the \<^verbatim>\<open>BOOL\<close> result \<^verbatim>\<open>!hr\<close>, \<^verbatim>\<open>*pcDevices\<close> and
  \<^verbatim>\<open>*ppResult\<close> (\<open>None\<close> for a null pointer, otherwise the contents of the block).
\<close>

record ret =
  success :: bool
  pcDevices :: nat
  ppResult :: "EnumeratedUSBDevice list option"

text \<open>
  \<^verbatim>\<open>Zero(pResult, cbResult)\<close> on line 100 is \<^verbatim>\<open>memset(pResult, 0, cbResult)\<close> and runs before the
  test of \<open>pResult\<close> on line 101. With a null \<open>pResult\<close> and a positive \<open>cbResult\<close> it writes
  through the null pointer: an access violation, raised inside the \<^verbatim>\<open>__try\<close> of line 84. The
  function then does not return; the \<^verbatim>\<open>__finally\<close> of line 179 runs while the exception unwinds.
  With \<open>cbResult = 0\<close> the call writes nothing, also through a null pointer.
\<close>

datatype outcome = Return ret | AccessViolation

definition EnumerateUSBDevices :: "world \<Rightarrow> guid \<Rightarrow> outcome \<times> state" where
  "EnumerateUSBDevices w guidInterfaceClass =
     (case class_devs w of
        Inl err \<Rightarrow>
          (let s = \<lparr>hr = S_OK, pResult = [], overrun = [], trace = [SetupDiGetClassDevs False]\<rparr>
           in (Return \<lparr>success = (hr s = S_OK), pcDevices = 0, ppResult = None\<rparr>, s))
      | Inr devs \<Rightarrow>
          (let s0 = \<lparr>hr = S_OK, pResult = [], overrun = [], trace = [SetupDiGetClassDevs True]\<rparr>;
               (cDevices, s1) = count_loop devs 0 s0;
               cbResult = cDevices * sizeof_EnumeratedUSBDevice;
               s2 = log (CoTaskMemAlloc_result cbResult (result_alloc w)) s1
           in if \<not> result_alloc w \<and> 0 < cbResult then
                (AccessViolation, log SetupDiDestroyDeviceInfoList s2)
              else if result_alloc w then
                (let s3 = fill_loop devs guidInterfaceClass 0
                            (s2\<lparr>pResult := replicate cDevices zeroed\<rparr>);
                     s4 = log SetupDiDestroyDeviceInfoList s3
                 in (Return \<lparr>success = (hr s4 = S_OK), pcDevices = cDevices,
                             ppResult = Some (pResult s4)\<rparr>, s4))
              else
                (let s3 = (if cDevices \<noteq> 0 then s2\<lparr>hr := E_OUTOFMEMORY\<rparr> else s2);
                     s4 = log SetupDiDestroyDeviceInfoList s3
                 in (Return \<lparr>success = (hr s4 = S_OK), pcDevices = 0, ppResult = None\<rparr>, s4))))"

subsection \<open>Predicates used to state the claims\<close>

text \<open>Every call made for one interface succeeds, \<^verbatim>\<open>CreateFile\<close> included.\<close>

definition interface_ok :: "interface \<Rightarrow> bool" where
  "interface_ok ifc \<longleftrightarrow>
     detail_alloc ifc \<and> (case detail ifc of Inr p \<Rightarrow> True | Inl e \<Rightarrow> False) \<and>
     copy_alloc ifc \<and> create_file ifc = None"

text \<open>
  The contract of the Win32 calls: a call that fails leaves a last-error code other than
  \<^verbatim>\<open>ERROR_SUCCESS\<close>. Without it \<^verbatim>\<open>HError()\<close> can be \<open>S_OK\<close> after a failure.
\<close>

definition errors_set :: "interface \<Rightarrow> bool" where
  "errors_set ifc \<longleftrightarrow>
     (case detail ifc of Inl e \<Rightarrow> e \<noteq> 0 | Inr p \<Rightarrow> True) \<and>
     (case create_file ifc of Some e \<Rightarrow> e \<noteq> 0 | None \<Rightarrow> True)"

text \<open>The detail buffer was allocated and filled, so that line 131 stores into the slot.\<close>

definition path_resolved :: "interface \<Rightarrow> bool" where
  "path_resolved ifc \<longleftrightarrow>
     detail_alloc ifc \<and> (case detail ifc of Inr p \<Rightarrow> True | Inl e \<Rightarrow> False)"

text \<open>
  Resource discipline, read off a trace. The monitor keeps two flags: the device information
  set is open, and a detail buffer is allocated. It fails (\<open>None\<close>) when the set is opened
  twice, destroyed while closed or while a buffer is still allocated, when a buffer is
  allocated over another one or freed without being allocated, and when an enumeration call
  (an iteration going on to its next round) happens with a buffer still allocated or with the set
  closed. A trace is safe when the monitor accepts it and ends with both flags down.
\<close>

fun res_step :: "(bool \<times> bool) option \<Rightarrow> event \<Rightarrow> (bool \<times> bool) option" where
  "res_step None e = None"
| "res_step (Some (session, buffer)) (SetupDiGetClassDevs ok) =
     (if session then None else Some (ok, buffer))"
| "res_step (Some (session, buffer)) SetupDiDestroyDeviceInfoList =
     (if session \<and> \<not> buffer then Some (False, buffer) else None)"
| "res_step (Some (session, buffer)) (CoTaskMemAlloc_detail cb ok) =
     (if session \<and> \<not> buffer then Some (session, ok) else None)"
| "res_step (Some (session, buffer)) CoTaskMemFree_detail =
     (if buffer then Some (session, False) else None)"
| "res_step (Some (session, buffer)) (SetupDiEnumDeviceInterfaces i j found) =
     (if session \<and> \<not> buffer then Some (session, buffer) else None)"
| "res_step (Some (session, buffer)) (SetupDiEnumDeviceInfo i found) =
     (if session \<and> \<not> buffer then Some (session, buffer) else None)"
| "res_step (Some (session, buffer)) e = Some (session, buffer)"

definition resource_safe :: "event list \<Rightarrow> bool" where
  "resource_safe tr \<longleftrightarrow> foldl res_step (Some (False, False)) tr = Some (False, False)"

abbreviation res_of :: "state \<Rightarrow> (bool \<times> bool) option" where
  "res_of s \<equiv> foldl res_step (Some (False, False)) (trace s)"

definition opens :: "event list \<Rightarrow> nat" where
  "opens tr = length (filter (\<lambda>e. e = SetupDiGetClassDevs True) tr)"

definition destroys :: "event list \<Rightarrow> nat" where
  "destroys tr = length (filter (\<lambda>e. e = SetupDiDestroyDeviceInfoList) tr)"

definition buffer_allocs :: "event list \<Rightarrow> nat" where
  "buffer_allocs tr =
     length (filter (\<lambda>e. case e of CoTaskMemAlloc_detail cb ok \<Rightarrow> ok | _ \<Rightarrow> False) tr)"

definition buffer_frees :: "event list \<Rightarrow> nat" where
  "buffer_frees tr = length (filter (\<lambda>e. e = CoTaskMemFree_detail) tr)"

text \<open>
  Order of store and check in the fill pass, read off a trace. The monitor keeps: no violation
  so far, the output array has been requested (the fill pass follows that call), and the
  previous event. After the request, every \<^verbatim>\<open>SetupDiEnumDeviceInfo\<close> at ordinal \<open>i\<close> must come
  directly after the store of the class identifier into slot \<open>i\<close>.
\<close>

fun order_step :: "bool \<times> bool \<times> event option \<Rightarrow> event \<Rightarrow> bool \<times> bool \<times> event option" where
  "order_step (ok, filling, prev) (CoTaskMemAlloc_result cb b) =
     (ok, True, Some (CoTaskMemAlloc_result cb b))"
| "order_step (ok, filling, prev) (SetupDiEnumDeviceInfo i found) =
     (ok \<and> (filling \<longrightarrow> prev = Some (StoreGuid i)), filling,
      Some (SetupDiEnumDeviceInfo i found))"
| "order_step (ok, filling, prev) e = (ok, filling, Some e)"

definition store_before_check :: "event list \<Rightarrow> bool" where
  "store_before_check tr \<longleftrightarrow> fst (foldl order_step (True, False, None) tr)"

abbreviation order_of :: "state \<Rightarrow> bool \<times> bool \<times> event option" where
  "order_of s \<equiv> foldl order_step (True, False, None) (trace s)"

text \<open>
  How often the path of slot \<open>i\<close> is stored, and how many interfaces
  \<^verbatim>\<open>SetupDiEnumDeviceInterfaces\<close> finds for the device at ordinal \<open>i\<close>.
\<close>

definition stores_into :: "nat \<Rightarrow> event list \<Rightarrow> nat" where
  "stores_into i tr = length (filter (\<lambda>e. e = StorePath i) tr)"

definition interfaces_visited :: "nat \<Rightarrow> event list \<Rightarrow> nat" where
  "interfaces_visited i tr =
     length (filter (\<lambda>e. case e of SetupDiEnumDeviceInterfaces d j found \<Rightarrow> d = i \<and> found
                              | _ \<Rightarrow> False) tr)"

text \<open>An interface with the given device path for which every call succeeds.\<close>

definition sample_interface :: "wstring \<Rightarrow> interface" where
  "sample_interface p =
     \<lparr>cbRequired = 2 * length p + 6, detail_alloc = True, detail = Inr p,
      copy_alloc = True, create_file = None\<rparr>"

declare interface_loop.simps [simp del]
declare fill_loop.simps [simp del]
declare count_loop.simps [simp del]

section \<open>Properties of the model\<close>

subsection \<open>Constants, stores and the body of the inner loop\<close>

lemma E_OUTOFMEMORY_nonzero [simp]: "E_OUTOFMEMORY \<noteq> 0"
  by (simp add: E_OUTOFMEMORY_def)

lemma HRESULT_FROM_WIN32_eq_0 [simp]: "HRESULT_FROM_WIN32 x = 0 \<longleftrightarrow> x = 0"
  by (auto simp: HRESULT_FROM_WIN32_def or_eq_0_iff)

lemma HError_eq_0 [simp]: "HError x = 0 \<longleftrightarrow> x = 0"
  by (simp add: HError_def)

lemma log_simps [simp]:
  "hr (log e s) = hr s"
  "pResult (log e s) = pResult s"
  "overrun (log e s) = overrun s"
  "trace (log e s) = trace s @ [e]"
  by (simp_all add: log_def)

lemma store_guid_simps [simp]:
  "hr (store_guid i g s) = hr s"
  "length (pResult (store_guid i g s)) = length (pResult s)"
  "trace (store_guid i g s) = trace s @ [StoreGuid i]"
  "i < length (pResult s) \<Longrightarrow> overrun (store_guid i g s) = overrun s"
  "length (pResult s) \<le> i \<Longrightarrow> overrun (store_guid i g s) = overrun s @ [i]"
  "length (pResult s) \<le> i \<Longrightarrow> pResult (store_guid i g s) = pResult s"
  by (simp_all add: store_guid_def)

lemma store_guid_nth:
  "j < length (pResult s) \<Longrightarrow>
   pResult (store_guid i g s) ! j =
     (if j = i then (pResult s ! j)\<lparr>guidInterface := g\<rparr> else pResult s ! j)"
  by (simp add: store_guid_def)

lemma store_path_simps [simp]:
  "hr (store_path i p s) = hr s"
  "length (pResult (store_path i p s)) = length (pResult s)"
  "trace (store_path i p s) = trace s @ [StorePath i]"
  "i < length (pResult s) \<Longrightarrow> overrun (store_path i p s) = overrun s"
  by (simp_all add: store_path_def)

lemma store_path_nth:
  "j < length (pResult s) \<Longrightarrow>
   pResult (store_path i p s) ! j =
     (if j = i then (pResult s ! j)\<lparr>wszInterfacePath := p\<rparr> else pResult s ! j)"
  by (simp add: store_path_def)

lemma body_length [simp]:
  "length (pResult (interface_body ifc i s)) = length (pResult s)"
  by (simp add: interface_body_def Let_def split: sum.splits option.splits)

lemma body_overrun [simp]:
  "i < length (pResult s) \<Longrightarrow> overrun (interface_body ifc i s) = overrun s"
  by (simp add: interface_body_def Let_def split: sum.splits option.splits)

lemma body_frame:
  "j < length (pResult s) \<Longrightarrow> j \<noteq> i \<Longrightarrow> pResult (interface_body ifc i s) ! j = pResult s ! j"
  by (simp add: interface_body_def Let_def store_path_nth split: sum.splits option.splits)

lemma body_guid:
  "j < length (pResult s) \<Longrightarrow>
   guidInterface (pResult (interface_body ifc i s) ! j) = guidInterface (pResult s ! j)"
  by (simp add: interface_body_def Let_def store_path_nth split: sum.splits option.splits)

lemma body_path:
  "i < length (pResult s) \<Longrightarrow>
   wszInterfacePath (pResult (interface_body ifc i s) ! i) =
     (if detail_alloc ifc
      then (case detail ifc of Inr p \<Rightarrow> AllocCopyString (copy_alloc ifc) p
                             | Inl e \<Rightarrow> wszInterfacePath (pResult s ! i))
      else wszInterfacePath (pResult s ! i))"
  by (simp add: interface_body_def Let_def store_path_nth split: sum.splits option.splits)

lemma body_hr_ok:
  "interface_ok ifc \<Longrightarrow> hr (interface_body ifc i s) = hr s"
  by (simp add: interface_body_def interface_ok_def Let_def AllocCopyString_def
      split: sum.splits option.splits)

lemma body_hr_0:
  "errors_set ifc \<Longrightarrow>
   hr (interface_body ifc i s) = 0 \<longleftrightarrow> hr s = 0 \<and> interface_ok ifc"
  by (auto simp: interface_body_def interface_ok_def errors_set_def Let_def AllocCopyString_def
      split: sum.splits option.splits)

lemma interface_ok_errors_set: "interface_ok ifc \<Longrightarrow> errors_set ifc"
  by (auto simp: interface_ok_def errors_set_def split: sum.splits)

subsection \<open>The inner loop\<close>

lemma interface_loop_length [simp]:
  "length (pResult (interface_loop ifcs i j s)) = length (pResult s)"
  by (induction ifcs i j s rule: interface_loop.induct)
     (subst interface_loop.simps, simp)

lemma interface_loop_overrun [simp]:
  "i < length (pResult s) \<Longrightarrow> overrun (interface_loop ifcs i j s) = overrun s"
  by (induction ifcs i j s rule: interface_loop.induct)
     (subst interface_loop.simps, simp)

lemma interface_loop_frame:
  "k < length (pResult s) \<Longrightarrow> k \<noteq> i \<Longrightarrow> pResult (interface_loop ifcs i j s) ! k = pResult s ! k"
  by (induction ifcs i j s rule: interface_loop.induct)
     (subst interface_loop.simps, simp add: body_frame)

lemma interface_loop_guid:
  "k < length (pResult s) \<Longrightarrow>
   guidInterface (pResult (interface_loop ifcs i j s) ! k) = guidInterface (pResult s ! k)"
  by (induction ifcs i j s rule: interface_loop.induct)
     (subst interface_loop.simps, simp add: body_guid)

lemma interface_loop_done:
  "length ifcs \<le> j \<Longrightarrow>
   interface_loop ifcs i j s = log (SetupDiEnumDeviceInterfaces i j False) s"
  by (subst interface_loop.simps) simp

lemma interface_loop_hr_ok:
  "\<forall>ifc \<in> set ifcs. interface_ok ifc \<Longrightarrow> hr (interface_loop ifcs i j s) = hr s"
  by (induction ifcs i j s rule: interface_loop.induct)
     (subst interface_loop.simps, simp add: body_hr_ok)

lemma interface_loop_hr_0:
  "\<forall>ifc \<in> set ifcs. errors_set ifc \<Longrightarrow>
   hr (interface_loop ifcs i j s) = 0 \<longleftrightarrow>
     hr s = 0 \<and> (\<forall>k. j \<le> k \<and> k < length ifcs \<longrightarrow> interface_ok (ifcs ! k))"
proof (induction ifcs i j s rule: interface_loop.induct)
  case (1 ifcs i j s)
  show ?case
  proof (cases "j < length ifcs")
    case True
    have step: "(\<forall>k. j \<le> k \<and> k < length ifcs \<longrightarrow> interface_ok (ifcs ! k)) \<longleftrightarrow>
      interface_ok (ifcs ! j) \<and> (\<forall>k. Suc j \<le> k \<and> k < length ifcs \<longrightarrow> interface_ok (ifcs ! k))"
      using True by (metis Suc_leI le_neq_implies_less order_refl Suc_le_lessD less_imp_le)
    from True "1.prems" have e: "errors_set (ifcs ! j)" by simp
    show ?thesis
      by (subst interface_loop.simps) (use True "1.IH" [OF True "1.prems"] in
        \<open>simp add: body_hr_0 [OF e] step conj_commute conj_left_commute\<close>)
  next
    case False
    then show ?thesis by (auto simp: interface_loop_done)
  qed
qed

lemma interface_loop_last:
  assumes "j < length ifcs" "i < length (pResult s)"
    and "detail_alloc (last ifcs)" "detail (last ifcs) = Inr p" "copy_alloc (last ifcs)"
  shows "wszInterfacePath (pResult (interface_loop ifcs i j s) ! i) = Some p"
  using assms
proof (induction ifcs i j s rule: interface_loop.induct)
  case (1 ifcs i j s)
  let ?s' = "interface_body (ifcs ! j) i (log (SetupDiEnumDeviceInterfaces i j True) s)"
  have unfold: "interface_loop ifcs i j s = interface_loop ifcs i (Suc j) ?s'"
    by (subst interface_loop.simps) (simp add: "1.prems"(1))
  show ?case
  proof (cases "Suc j < length ifcs")
    case True
    with "1.IH" [OF "1.prems"(1) True] "1.prems" show ?thesis
      by (simp add: unfold)
  next
    case False
    with "1.prems"(1) have j: "ifcs ! j = last ifcs"
      by (metis Suc_lessI diff_Suc_1 last_conv_nth less_nat_zero_code list.size(3))
    from False have "interface_loop ifcs i (Suc j) ?s' =
        log (SetupDiEnumDeviceInterfaces i (Suc j) False) ?s'"
      by (simp add: interface_loop_done)
    with "1.prems" show ?thesis
      by (simp add: unfold j body_path AllocCopyString_def)
  qed
qed

subsection \<open>The counting loop\<close>

lemma count_loop_fst: "c \<le> length devs \<Longrightarrow> fst (count_loop devs c s) = length devs"
  by (induction devs c s rule: count_loop.induct)
     (subst count_loop.simps, simp)

lemma count_loop_snd [simp]:
  "hr (snd (count_loop devs c s)) = hr s"
  "pResult (snd (count_loop devs c s)) = pResult s"
  "overrun (snd (count_loop devs c s)) = overrun s"
  by (induction devs c s rule: count_loop.induct;
      subst count_loop.simps, simp)+

subsection \<open>The fill loop\<close>

lemma fill_loop_stop: "hr s \<noteq> 0 \<Longrightarrow> fill_loop devs g k s = s"
  by (subst fill_loop.simps) simp

lemma fill_loop_step:
  "hr s = 0 \<Longrightarrow> k < length devs \<Longrightarrow>
   fill_loop devs g k s =
     fill_loop devs g (Suc k)
       (interface_loop (devs ! k) k 0 (log (SetupDiEnumDeviceInfo k True) (store_guid k g s)))"
  by (subst fill_loop.simps) (simp add: Let_def)

lemma fill_loop_end:
  "hr s = 0 \<Longrightarrow> length devs \<le> k \<Longrightarrow>
   fill_loop devs g k s = log (SetupDiEnumDeviceInfo k False) (store_guid k g s)"
  by (subst fill_loop.simps) (simp add: Let_def)

lemma fill_loop_length [simp]:
  "length (pResult (fill_loop devs g k s)) = length (pResult s)"
  by (induction devs g k s rule: fill_loop.induct)
     (subst fill_loop.simps, simp add: Let_def)

lemma fill_loop_frame:
  "j < k \<Longrightarrow> j < length (pResult s) \<Longrightarrow> pResult (fill_loop devs g k s) ! j = pResult s ! j"
  by (induction devs g k s rule: fill_loop.induct)
     (subst fill_loop.simps, simp add: Let_def interface_loop_frame store_guid_nth)

lemma fill_loop_guid_cases:
  "j < length (pResult s) \<Longrightarrow>
   guidInterface (pResult (fill_loop devs g k s) ! j) = guidInterface (pResult s ! j) \<or>
   guidInterface (pResult (fill_loop devs g k s) ! j) = g"
  by (induction devs g k s rule: fill_loop.induct)
     (subst (1 2) fill_loop.simps, auto simp: Let_def interface_loop_guid store_guid_nth)

lemma fill_loop_path_nil:
  "i < length devs \<Longrightarrow> devs ! i = [] \<Longrightarrow> i < length (pResult s) \<Longrightarrow>
   wszInterfacePath (pResult (fill_loop devs g k s) ! i) = wszInterfacePath (pResult s ! i)"
proof (induction devs g k s rule: fill_loop.induct)
  case (1 devs g k s)
  show ?case
  proof (cases "hr s = 0 \<and> k < length devs")
    case True
    let ?s' = "interface_loop (devs ! k) k 0 (log (SetupDiEnumDeviceInfo k True) (store_guid k g s))"
    have "wszInterfacePath (pResult ?s' ! i) = wszInterfacePath (pResult s ! i)"
      using "1.prems" by (cases "k = i")
        (simp_all add: interface_loop_done interface_loop_frame store_guid_nth)
    moreover have "wszInterfacePath (pResult (fill_loop devs g (Suc k) ?s') ! i) =
        wszInterfacePath (pResult ?s' ! i)"
      using True "1.prems" by (intro "1.IH") simp_all
    ultimately show ?thesis
      using True by (simp add: fill_loop_step)
  next
    case False
    then show ?thesis
      using "1.prems" by (cases "hr s = 0") (simp_all add: fill_loop_stop fill_loop_end store_guid_nth)
  qed
qed

lemma fill_loop_overrun:
  "length (pResult s) = length devs \<Longrightarrow> k \<le> length devs \<Longrightarrow>
   overrun (fill_loop devs g k s) =
     (if hr (fill_loop devs g k s) = 0 then overrun s @ [length devs] else overrun s)"
proof (induction devs g k s rule: fill_loop.induct)
  case (1 devs g k s)
  show ?case
  proof (cases "hr s = 0")
    case False
    then show ?thesis by (simp add: fill_loop_stop)
  next
    case True
    show ?thesis
    proof (cases "k < length devs")
      case k: True
      with True "1.prems" "1.IH" show ?thesis
        by (simp add: fill_loop_step)
    next
      case False
      with "1.prems" have "k = length devs" by simp
      with True "1.prems" show ?thesis
        by (simp add: fill_loop_end)
    qed
  qed
qed

lemma fill_loop_hr_0:
  assumes "\<forall>d \<in> set devs. \<forall>ifc \<in> set d. errors_set ifc"
  shows "hr (fill_loop devs g k s) = 0 \<longleftrightarrow>
     hr s = 0 \<and> (\<forall>j. k \<le> j \<and> j < length devs \<longrightarrow> (\<forall>ifc \<in> set (devs ! j). interface_ok ifc))"
  using assms
proof (induction devs g k s rule: fill_loop.induct)
  case (1 devs g k s)
  show ?case
  proof (cases "hr s = 0")
    case False
    then show ?thesis by (simp add: fill_loop_stop)
  next
    case True
    show ?thesis
    proof (cases "k < length devs")
      case k: True
      let ?s' = "interface_loop (devs ! k) k 0 (log (SetupDiEnumDeviceInfo k True) (store_guid k g s))"
      from k "1.prems" have e: "\<forall>ifc \<in> set (devs ! k). errors_set ifc"
        using nth_mem by blast
      have inner: "hr ?s' = 0 \<longleftrightarrow> (\<forall>ifc \<in> set (devs ! k). interface_ok ifc)"
        using True by (simp add: interface_loop_hr_0 [OF e] all_set_conv_all_nth)
      have split: "(\<forall>j. k \<le> j \<and> j < length devs \<longrightarrow> (\<forall>ifc \<in> set (devs ! j). interface_ok ifc)) \<longleftrightarrow>
          (\<forall>ifc \<in> set (devs ! k). interface_ok ifc) \<and>
          (\<forall>j. Suc k \<le> j \<and> j < length devs \<longrightarrow> (\<forall>ifc \<in> set (devs ! j). interface_ok ifc))"
        using k by (metis Suc_leI le_neq_implies_less order_refl Suc_le_lessD less_imp_le)
      from "1.IH" [OF _ refl k "1.prems"] True
      have "hr (fill_loop devs g (Suc k) ?s') = 0 \<longleftrightarrow> hr ?s' = 0 \<and>
          (\<forall>j. Suc k \<le> j \<and> j < length devs \<longrightarrow> (\<forall>ifc \<in> set (devs ! j). interface_ok ifc))"
        by simp
      with True k inner split show ?thesis
        by (simp add: fill_loop_step)
    next
      case False
      with True show ?thesis
        by (auto simp: fill_loop_end)
    qed
  qed
qed

lemma fill_loop_reach:
  assumes "hr s = 0" "k \<le> i" "i \<le> length devs"
    and "\<forall>j. k \<le> j \<and> j < i \<longrightarrow> (\<forall>ifc \<in> set (devs ! j). interface_ok ifc)"
  shows "\<exists>s'. fill_loop devs g k s = fill_loop devs g i s' \<and> hr s' = 0 \<and>
      length (pResult s') = length (pResult s) \<and>
      (\<forall>j. i \<le> j \<and> j < length (pResult s) \<longrightarrow> pResult s' ! j = pResult s ! j) \<and>
      (length devs \<le> length (pResult s) \<longrightarrow> overrun s' = overrun s)"
  using assms(2,3,4)
proof (induction i)
  case 0
  with assms(1) show ?case by auto
next
  case (Suc i)
  show ?case
  proof (cases "k = Suc i")
    case True
    with assms(1) show ?thesis by blast
  next
    case False
  with Suc.prems have ki: "k \<le> i" by simp
  with Suc.IH Suc.prems obtain s' where s': "fill_loop devs g k s = fill_loop devs g i s'" "hr s' = 0"
      "length (pResult s') = length (pResult s)"
      "\<forall>j. i \<le> j \<and> j < length (pResult s) \<longrightarrow> pResult s' ! j = pResult s ! j"
      "length devs \<le> length (pResult s) \<longrightarrow> overrun s' = overrun s"
    by (metis Suc_leD less_Suc_eq)
  let ?s'' = "interface_loop (devs ! i) i 0 (log (SetupDiEnumDeviceInfo i True) (store_guid i g s'))"
  from Suc.prems ki have ok: "\<forall>ifc \<in> set (devs ! i). interface_ok ifc" by blast
  from Suc.prems have i: "i < length devs" by simp
  have "fill_loop devs g k s = fill_loop devs g (Suc i) ?s''"
    using s' i by (simp add: fill_loop_step)
  moreover have "hr ?s'' = 0"
    using s' ok by (simp add: interface_loop_hr_ok)
  moreover have "length (pResult ?s'') = length (pResult s)"
    using s' by simp
  moreover have "\<forall>j. Suc i \<le> j \<and> j < length (pResult s) \<longrightarrow> pResult ?s'' ! j = pResult s ! j"
    using s' by (simp add: interface_loop_frame store_guid_nth)
  moreover have "length devs \<le> length (pResult s) \<longrightarrow> overrun ?s'' = overrun s"
    using s' i by simp
  ultimately show ?thesis by blast
  qed
qed

text \<open>The slot of a device that the fill loop reaches.\<close>

lemma fill_loop_reached_slot:
  assumes "hr s = 0" "i < length devs" "i < length (pResult s)"
    and "\<forall>j. j < i \<longrightarrow> (\<forall>ifc \<in> set (devs ! j). interface_ok ifc)"
  shows "\<exists>s'. length (pResult s') = length (pResult s) \<and>
      wszInterfacePath (pResult s' ! i) = wszInterfacePath (pResult s ! i) \<and>
      guidInterface (pResult s' ! i) = g \<and>
      pResult (fill_loop devs g 0 s) ! i = pResult (interface_loop (devs ! i) i 0 s') ! i"
proof -
  from fill_loop_reach [of s 0 i devs g] assms
  obtain s' where s': "fill_loop devs g 0 s = fill_loop devs g i s'" "hr s' = 0"
      "length (pResult s') = length (pResult s)" "pResult s' ! i = pResult s ! i"
    by auto
  let ?t = "log (SetupDiEnumDeviceInfo i True) (store_guid i g s')"
  have "fill_loop devs g 0 s = fill_loop devs g (Suc i) (interface_loop (devs ! i) i 0 ?t)"
    using s' assms(2) by (simp add: fill_loop_step)
  then have "pResult (fill_loop devs g 0 s) ! i = pResult (interface_loop (devs ! i) i 0 ?t) ! i"
    using s' assms(3) by (simp add: fill_loop_frame)
  moreover have "length (pResult ?t) = length (pResult s)"
    using s' by simp
  moreover have "wszInterfacePath (pResult ?t ! i) = wszInterfacePath (pResult s ! i)"
    "guidInterface (pResult ?t ! i) = g"
    using s' assms(3) by (simp_all add: store_guid_nth)
  ultimately show ?thesis by blast
qed

subsection \<open>The monitors along the iterations\<close>

lemma res_step_None [simp]: "foldl res_step None tr = None"
  by (induction tr) simp_all

lemma counts_Cons:
  "opens (e # tr) = (if e = SetupDiGetClassDevs True then 1 else 0) + opens tr"
  "destroys (e # tr) = (if e = SetupDiDestroyDeviceInfoList then 1 else 0) + destroys tr"
  "buffer_allocs (e # tr) =
     (case e of CoTaskMemAlloc_detail cb ok \<Rightarrow> if ok then 1 else 0 | _ \<Rightarrow> 0) + buffer_allocs tr"
  "buffer_frees (e # tr) = (if e = CoTaskMemFree_detail then 1 else 0) + buffer_frees tr"
  by (simp_all add: opens_def destroys_def buffer_allocs_def buffer_frees_def split: event.splits)

lemma res_counts:
  "foldl res_step (Some (a, b)) tr = Some (a', b') \<Longrightarrow>
   of_bool a + opens tr = of_bool a' + destroys tr \<and>
   of_bool b + buffer_allocs tr = of_bool b' + buffer_frees tr"
proof (induction tr arbitrary: a b)
  case Nil
  then show ?case by (simp add: opens_def destroys_def buffer_allocs_def buffer_frees_def)
next
  case (Cons e tr)
  show ?case
  proof (cases "res_step (Some (a, b)) e")
    case None
    with Cons.prems show ?thesis by simp
  next
    case (Some st)
    obtain a1 b1 where st: "st = (a1, b1)" by (cases st)
    from Cons.prems Some st have "foldl res_step (Some (a1, b1)) tr = Some (a', b')" by simp
    from Cons.IH [OF this] Some st show ?thesis
      by (cases e) (auto simp: counts_Cons split: if_splits)
  qed
qed

lemma resource_safe_counts:
  "resource_safe tr \<Longrightarrow> destroys tr = opens tr \<and> buffer_frees tr = buffer_allocs tr"
  using res_counts [of False False tr False False] by (simp add: resource_safe_def)

lemma body_res:
  "res_of s = Some (True, False) \<Longrightarrow> res_of (interface_body ifc i s) = Some (True, False)"
  by (simp add: interface_body_def Let_def split: sum.splits option.splits)

lemma interface_loop_res:
  "res_of s = Some (True, False) \<Longrightarrow> res_of (interface_loop ifcs i j s) = Some (True, False)"
  by (induction ifcs i j s rule: interface_loop.induct)
     (subst interface_loop.simps, simp add: body_res)

lemma fill_loop_res:
  "res_of s = Some (True, False) \<Longrightarrow> res_of (fill_loop devs g k s) = Some (True, False)"
  by (induction devs g k s rule: fill_loop.induct)
     (subst fill_loop.simps, simp add: Let_def interface_loop_res)

lemma count_loop_res:
  "res_of s = Some (True, False) \<Longrightarrow> res_of (snd (count_loop devs c s)) = Some (True, False)"
  by (induction devs c s rule: count_loop.induct)
     (subst count_loop.simps, simp)

lemma body_order:
  "fst (order_of s) \<Longrightarrow> fst (snd (order_of s)) \<Longrightarrow>
   fst (order_of (interface_body ifc i s)) \<and> fst (snd (order_of (interface_body ifc i s)))"
  by (cases "order_of s")
     (simp add: interface_body_def Let_def split: sum.splits option.splits)

lemma interface_loop_order:
  "fst (order_of s) \<Longrightarrow> fst (snd (order_of s)) \<Longrightarrow>
   fst (order_of (interface_loop ifcs i j s)) \<and> fst (snd (order_of (interface_loop ifcs i j s)))"
proof (induction ifcs i j s rule: interface_loop.induct)
  case (1 ifcs i j s)
  obtain ok f p where o: "order_of s = (ok, f, p)" by (cases "order_of s")
  show ?case
  proof (cases "j < length ifcs")
    case True
    let ?t = "log (SetupDiEnumDeviceInterfaces i j True) s"
    have "fst (order_of ?t) \<and> fst (snd (order_of ?t))"
      using "1.prems" o by simp
    then have "fst (order_of (interface_body (ifcs ! j) i ?t)) \<and>
        fst (snd (order_of (interface_body (ifcs ! j) i ?t)))"
      using body_order by blast
    with "1.IH" [OF True] True show ?thesis
      by (subst (1 2) interface_loop.simps) simp
  next
    case False
    with "1.prems" o show ?thesis by (simp add: interface_loop_done)
  qed
qed

lemma fill_loop_order:
  "fst (order_of s) \<Longrightarrow> fst (snd (order_of s)) \<Longrightarrow>
   fst (order_of (fill_loop devs g k s)) \<and> fst (snd (order_of (fill_loop devs g k s)))"
proof (induction devs g k s rule: fill_loop.induct)
  case (1 devs g k s)
  obtain ok f p where o: "order_of s = (ok, f, p)" by (cases "order_of s")
  show ?case
  proof (cases "hr s = 0")
    case False
    with "1.prems" show ?thesis by (simp add: fill_loop_stop)
  next
    case True
    show ?thesis
    proof (cases "k < length devs")
      case k: True
      let ?t = "log (SetupDiEnumDeviceInfo k True) (store_guid k g s)"
      have "fst (order_of ?t) \<and> fst (snd (order_of ?t))"
        using "1.prems" o by simp
      then have "fst (order_of (interface_loop (devs ! k) k 0 ?t)) \<and>
          fst (snd (order_of (interface_loop (devs ! k) k 0 ?t)))"
        using interface_loop_order by blast
      with "1.IH" [OF _ refl k] True k show ?thesis
        by (simp add: fill_loop_step)
    next
      case False
      with True "1.prems" o show ?thesis by (simp add: fill_loop_end)
    qed
  qed
qed

subsection \<open>Counting stores and visited interfaces\<close>

lemma stores_into_simps [simp]:
  "stores_into k [] = 0"
  "stores_into k (e # es) = (if e = StorePath k then 1 else 0) + stores_into k es"
  "stores_into k (tr @ es) = stores_into k tr + stores_into k es"
  by (simp_all add: stores_into_def)

lemma interfaces_visited_simps [simp]:
  "interfaces_visited k [] = 0"
  "interfaces_visited k (e # es) =
     (case e of SetupDiEnumDeviceInterfaces d j found \<Rightarrow> if d = k \<and> found then 1 else 0
              | _ \<Rightarrow> 0) + interfaces_visited k es"
  "interfaces_visited k (tr @ es) = interfaces_visited k tr + interfaces_visited k es"
  by (simp_all add: interfaces_visited_def split: event.splits)

lemma count_loop_order:
  "fst (order_of s) \<Longrightarrow> \<not> fst (snd (order_of s)) \<Longrightarrow>
   fst (order_of (snd (count_loop devs c s))) \<and> \<not> fst (snd (order_of (snd (count_loop devs c s))))"
proof (induction devs c s rule: count_loop.induct)
  case (1 devs c s)
  obtain ok f p where o: "order_of s = (ok, f, p)" by (cases "order_of s")
  show ?case
  proof (cases "c < length devs")
    case True
    have "fst (order_of (log (SetupDiEnumDeviceInfo c True) s)) \<and>
        \<not> fst (snd (order_of (log (SetupDiEnumDeviceInfo c True) s)))"
      using "1.prems" o by simp
    with "1.IH" [OF True] True show ?thesis
      by (subst (1 2) count_loop.simps) simp
  next
    case False
    with "1.prems" o show ?thesis
      by (subst (1 2) count_loop.simps) simp
  qed
qed

lemma count_loop_counts [simp]:
  "stores_into i (trace (snd (count_loop devs c s))) = stores_into i (trace s)"
  "interfaces_visited i (trace (snd (count_loop devs c s))) = interfaces_visited i (trace s)"
  by (induction devs c s rule: count_loop.induct;
      subst count_loop.simps, simp)+





subsection \<open>The function as a whole\<close>

lemma Enumerate_open_failed:
  "class_devs w = Inl e \<Longrightarrow>
   EnumerateUSBDevices w g =
     (Return \<lparr>success = True, pcDevices = 0, ppResult = None\<rparr>,
      \<lparr>hr = S_OK, pResult = [], overrun = [], trace = [SetupDiGetClassDevs False]\<rparr>)"
  by (simp add: EnumerateUSBDevices_def)

lemma Enumerate_filled:
  assumes "class_devs w = Inr devs" "result_alloc w"
  shows "\<exists>s. hr s = 0 \<and> pResult s = replicate (length devs) zeroed \<and> overrun s = [] \<and>
      res_of s = Some (True, False) \<and> fst (order_of s) \<and> fst (snd (order_of s)) \<and>
      (\<forall>i. stores_into i (trace s) = 0 \<and> interfaces_visited i (trace s) = 0) \<and>
      EnumerateUSBDevices w g =
        (Return \<lparr>success = (hr (fill_loop devs g 0 s) = 0), pcDevices = length devs,
                 ppResult = Some (pResult (fill_loop devs g 0 s))\<rparr>,
         log SetupDiDestroyDeviceInfoList (fill_loop devs g 0 s))"
proof -
  let ?init = "\<lparr>hr = S_OK, pResult = [], overrun = [], trace = [SetupDiGetClassDevs True]\<rparr>"
  let ?counted = "snd (count_loop devs 0 ?init)"
  let ?s = "(log (CoTaskMemAlloc_result (length devs * sizeof_EnumeratedUSBDevice) True) ?counted)
      \<lparr>pResult := replicate (length devs) zeroed\<rparr>"
  have c: "fst (count_loop devs 0 ?init) = length devs"
    by (simp add: count_loop_fst)
  have "res_of ?init = Some (True, False)" by simp
  then have r: "res_of ?counted = Some (True, False)" by (rule count_loop_res)
  have "fst (order_of ?init) \<and> \<not> fst (snd (order_of ?init))" by simp
  then have "fst (order_of ?counted) \<and> \<not> fst (snd (order_of ?counted))"
    using count_loop_order by blast
  then have o: "fst (order_of ?s) \<and> fst (snd (order_of ?s))"
    by (cases "order_of ?counted") simp
  have "hr ?s = 0" "pResult ?s = replicate (length devs) zeroed" "overrun ?s = []"
    by simp_all
  moreover have "res_of ?s = Some (True, False)"
    using r by simp
  moreover have "\<forall>i. stores_into i (trace ?s) = 0 \<and> interfaces_visited i (trace ?s) = 0"
    by simp
  moreover have "EnumerateUSBDevices w g =
        (Return \<lparr>success = (hr (fill_loop devs g 0 ?s) = 0), pcDevices = length devs,
                 ppResult = Some (pResult (fill_loop devs g 0 ?s))\<rparr>,
         log SetupDiDestroyDeviceInfoList (fill_loop devs g 0 ?s))"
    using assms c by (simp add: EnumerateUSBDevices_def Let_def case_prod_beta)
  ultimately show ?thesis
    using o by blast
qed

lemma Enumerate_alloc_failed:
  assumes "class_devs w = Inr devs" "\<not> result_alloc w"
  shows "\<exists>s. res_of s = Some (True, False) \<and>
      EnumerateUSBDevices w g =
        (if devs = [] then Return \<lparr>success = True, pcDevices = 0, ppResult = None\<rparr>
         else AccessViolation,
         log SetupDiDestroyDeviceInfoList s)"
proof -
  let ?init = "\<lparr>hr = S_OK, pResult = [], overrun = [], trace = [SetupDiGetClassDevs True]\<rparr>"
  let ?counted = "snd (count_loop devs 0 ?init)"
  let ?s = "log (CoTaskMemAlloc_result (length devs * sizeof_EnumeratedUSBDevice) False) ?counted"
  have c: "fst (count_loop devs 0 ?init) = length devs"
    by (simp add: count_loop_fst)
  have "res_of ?init = Some (True, False)" by simp
  then have "res_of ?counted = Some (True, False)" by (rule count_loop_res)
  then have "res_of ?s = Some (True, False)" by simp
  moreover have "EnumerateUSBDevices w g =
        (if devs = [] then Return \<lparr>success = True, pcDevices = 0, ppResult = None\<rparr>
         else AccessViolation,
         log SetupDiDestroyDeviceInfoList ?s)"
    using assms c
    by (cases devs)
      (simp_all add: EnumerateUSBDevices_def Let_def case_prod_beta sizeof_EnumeratedUSBDevice_def)
  ultimately show ?thesis by blast
qed

section \<open>The claims\<close>

text \<open>
  C1 (code defect). The claim: when \<^verbatim>\<open>SetupDiGetClassDevsW\<close> returns \<^verbatim>\<open>INVALID_HANDLE_VALUE\<close>, the
  function returns success = false, a device count of zero and no output array. The count and
  the array are as claimed, but the function returns TRUE: line 186 stores the error code in
  the local \<open>err\<close>, which nothing reads, and \<open>hr\<close> is still \<open>S_OK\<close> at \<^verbatim>\<open>return !hr\<close>. Evaluated
  for a session that cannot be opened, with last error 5 (\<^verbatim>\<open>ERROR_ACCESS_DENIED\<close>).
\<close>

theorem open_failure_returns_success:
  "EnumerateUSBDevices \<lparr>class_devs = Inl 5, result_alloc = True\<rparr> 1 =
     (Return \<lparr>success = True, pcDevices = 0, ppResult = None\<rparr>,
      \<lparr>hr = S_OK, pResult = [], overrun = [], trace = [SetupDiGetClassDevs False]\<rparr>)"
  by (simp add: EnumerateUSBDevices_def)

text \<open>
  C2. In the fill pass the class identifier is stored into slot \<open>iResult\<close> directly before
  \<^verbatim>\<open>SetupDiEnumDeviceInfo\<close> is asked about ordinal \<open>iResult\<close>, in every iteration. Hence, when the
  session opens and the output array of \<open>n\<close> slots is allocated (\<open>n\<close> the number of devices, also
  \<open>n = 0\<close>), a fill pass that ends by the \<^verbatim>\<open>break\<close> of line 171, that is with \<open>hr = S_OK\<close>, has
  stored to index \<open>n\<close>, one element past the end of the block; a fill pass stopped by an error
  has not.
\<close>

theorem fill_stores_before_check:
  assumes "class_devs w = Inr devs" "result_alloc w"
  shows "store_before_check (trace (snd (EnumerateUSBDevices w g))) \<and>
    (\<exists>r a. fst (EnumerateUSBDevices w g) = Return r \<and> ppResult r = Some a \<and>
       length a = length devs \<and>
       overrun (snd (EnumerateUSBDevices w g)) = (if success r then [length devs] else []))"
proof -
  from Enumerate_filled [OF assms, of g] obtain s where
    s: "hr s = 0" "pResult s = replicate (length devs) zeroed" "overrun s = []"
      "fst (order_of s)" "fst (snd (order_of s))"
    and e: "EnumerateUSBDevices w g =
        (Return \<lparr>success = (hr (fill_loop devs g 0 s) = 0), pcDevices = length devs,
                 ppResult = Some (pResult (fill_loop devs g 0 s))\<rparr>,
         log SetupDiDestroyDeviceInfoList (fill_loop devs g 0 s))"
    by blast
  let ?f = "fill_loop devs g 0 s"
  from s have "fst (order_of ?f)"
    using fill_loop_order by blast
  then have "store_before_check (trace (snd (EnumerateUSBDevices w g)))"
    by (cases "order_of ?f") (simp add: e store_before_check_def)
  moreover have "overrun ?f = (if hr ?f = 0 then [length devs] else [])"
    using s fill_loop_overrun [of s devs 0 g] by simp
  moreover have "length (pResult ?f) = length devs"
    using s by simp
  ultimately show ?thesis
    by (simp add: e)
qed

theorem fill_stores_before_check_witness:
  "store_before_check (trace (snd (EnumerateUSBDevices
      \<lparr>class_devs = Inr [[sample_interface [0x41]], []], result_alloc = True\<rparr> 1))) \<and>
   fst (EnumerateUSBDevices
      \<lparr>class_devs = Inr [[sample_interface [0x41]], []], result_alloc = True\<rparr> 1) =
     Return \<lparr>success = True, pcDevices = 2,
             ppResult = Some [\<lparr>guidInterface = 1, wszInterfacePath = Some [0x41]\<rparr>,
                              \<lparr>guidInterface = 1, wszInterfacePath = None\<rparr>]\<rparr> \<and>
   overrun (snd (EnumerateUSBDevices
      \<lparr>class_devs = Inr [[sample_interface [0x41]], []], result_alloc = True\<rparr> 1)) = [2] \<and>
   fst (EnumerateUSBDevices \<lparr>class_devs = Inr [], result_alloc = True\<rparr> 1) =
     Return \<lparr>success = True, pcDevices = 0, ppResult = Some []\<rparr> \<and>
   overrun (snd (EnumerateUSBDevices \<lparr>class_devs = Inr [], result_alloc = True\<rparr> 1)) = [0]"
proof -
  let ?w = "\<lparr>class_devs = Inr [[sample_interface [0x41]], []], result_alloc = True\<rparr>"
  let ?v = "\<lparr>class_devs = Inr [], result_alloc = True\<rparr>"
  have h: "class_devs ?w = Inr [[sample_interface [0x41]], []]" "result_alloc ?w"
    by simp_all
  have k: "class_devs ?v = Inr []" "result_alloc ?v"
    by simp_all
  have ev: "fst (EnumerateUSBDevices ?w 1) =
      Return \<lparr>success = True, pcDevices = 2,
              ppResult = Some [\<lparr>guidInterface = 1, wszInterfacePath = Some [0x41]\<rparr>,
                               \<lparr>guidInterface = 1, wszInterfacePath = None\<rparr>]\<rparr>"
    "fst (EnumerateUSBDevices ?v 1) =
      Return \<lparr>success = True, pcDevices = 0, ppResult = Some []\<rparr>"
    by code_simp+
  from fill_stores_before_check [OF h, of 1] fill_stores_before_check [OF k, of 1] ev
  show ?thesis
    by simp
qed

text \<open>
  C3. On every path through \<^verbatim>\<open>EnumerateUSBDevices\<close> (return after a failed open, normal return,
  return after an error in the fill pass, unwinding from the access violation of line 100) the
  device information set is destroyed exactly once when it was opened and never otherwise, and
  every detail buffer that was allocated in the inner loop is freed exactly once, before the
  next \<^verbatim>\<open>SetupDiEnumDeviceInterfaces\<close> or \<^verbatim>\<open>SetupDiEnumDeviceInfo\<close> call and before the set is
  destroyed.
\<close>

theorem session_and_buffers_released:
  "resource_safe (trace (snd (EnumerateUSBDevices w g))) \<and>
   destroys (trace (snd (EnumerateUSBDevices w g))) = opens (trace (snd (EnumerateUSBDevices w g))) \<and>
   buffer_frees (trace (snd (EnumerateUSBDevices w g))) =
     buffer_allocs (trace (snd (EnumerateUSBDevices w g)))"
proof -
  have "resource_safe (trace (snd (EnumerateUSBDevices w g)))"
  proof (cases "class_devs w")
    case (Inl e)
    then show ?thesis
      by (simp add: Enumerate_open_failed resource_safe_def)
  next
    case (Inr devs)
    show ?thesis
    proof (cases "result_alloc w")
      case True
      from Enumerate_filled [OF Inr True, of g] obtain s where
        "res_of s = Some (True, False)"
        "snd (EnumerateUSBDevices w g) = log SetupDiDestroyDeviceInfoList (fill_loop devs g 0 s)"
        by force
      then show ?thesis
        by (simp add: resource_safe_def fill_loop_res)
    next
      case False
      from Enumerate_alloc_failed [OF Inr False, of g] obtain s where
        "res_of s = Some (True, False)"
        "snd (EnumerateUSBDevices w g) = log SetupDiDestroyDeviceInfoList s"
        by force
      then show ?thesis
        by (simp add: resource_safe_def)
    qed
  qed
  then show ?thesis
    by (simp add: resource_safe_counts)
qed

theorem session_and_buffers_released_witness:
  "resource_safe (trace (snd (EnumerateUSBDevices
      \<lparr>class_devs = Inr [[sample_interface [0x41], (sample_interface [0x42])\<lparr>detail := Inl 5\<rparr>]],
       result_alloc = True\<rparr> 1))) \<and>
   opens (trace (snd (EnumerateUSBDevices
      \<lparr>class_devs = Inr [[sample_interface [0x41], (sample_interface [0x42])\<lparr>detail := Inl 5\<rparr>]],
       result_alloc = True\<rparr> 1))) = 1 \<and>
   destroys (trace (snd (EnumerateUSBDevices
      \<lparr>class_devs = Inr [[sample_interface [0x41], (sample_interface [0x42])\<lparr>detail := Inl 5\<rparr>]],
       result_alloc = True\<rparr> 1))) = 1 \<and>
   buffer_allocs (trace (snd (EnumerateUSBDevices
      \<lparr>class_devs = Inr [[sample_interface [0x41], (sample_interface [0x42])\<lparr>detail := Inl 5\<rparr>]],
       result_alloc = True\<rparr> 1))) = 2 \<and>
   buffer_frees (trace (snd (EnumerateUSBDevices
      \<lparr>class_devs = Inr [[sample_interface [0x41], (sample_interface [0x42])\<lparr>detail := Inl 5\<rparr>]],
       result_alloc = True\<rparr> 1))) = 2"
proof -
  let ?w = "\<lparr>class_devs = Inr [[sample_interface [0x41], (sample_interface [0x42])\<lparr>detail := Inl 5\<rparr>]],
       result_alloc = True\<rparr>"
  have ev: "opens (trace (snd (EnumerateUSBDevices ?w 1))) = 1"
    "buffer_allocs (trace (snd (EnumerateUSBDevices ?w 1))) = 2"
    by code_simp+
  from session_and_buffers_released [of ?w 1] ev show ?thesis
    by simp
qed

text \<open>
  C4 (corrected). The claim: the slot of a device without a matching interface is present and
  left zeroed, with a null path and a zero class identifier. The slot is present and its path is
  null, but line 107 stores the requested class identifier into the slot of every device that
  the fill pass reaches, before it looks at the interfaces. With one device without interfaces
  and the class identifier 1, the slot holds the identifier 1.
\<close>

theorem empty_device_slot_counterexample:
  "fst (EnumerateUSBDevices \<lparr>class_devs = Inr [[]], result_alloc = True\<rparr> 1) =
     Return \<lparr>success = True, pcDevices = 1,
             ppResult = Some [\<lparr>guidInterface = 1, wszInterfacePath = None\<rparr>]\<rparr> \<and>
   \<lparr>guidInterface = 1, wszInterfacePath = None\<rparr> \<noteq> zeroed"
  by code_simp

text \<open>
  C4 as amended. When the session opens and the output array is allocated, the slot of a device
  without a matching interface is present (the count and the array length are the number of
  devices), its path is null, and its class identifier is the requested one or zero; it is the
  requested one whenever every call for every interface of the earlier devices succeeded, so
  that the fill pass reaches the device.
\<close>

theorem empty_device_slot:
  assumes "class_devs w = Inr devs" "result_alloc w" "i < length devs" "devs ! i = []"
  shows "\<exists>r a. fst (EnumerateUSBDevices w g) = Return r \<and> pcDevices r = length devs \<and>
      ppResult r = Some a \<and> length a = length devs \<and>
      wszInterfacePath (a ! i) = None \<and>
      (guidInterface (a ! i) = g \<or> guidInterface (a ! i) = 0) \<and>
      ((\<forall>j < i. \<forall>ifc \<in> set (devs ! j). interface_ok ifc) \<longrightarrow> guidInterface (a ! i) = g)"
proof -
  from Enumerate_filled [OF assms(1,2), of g] obtain s where
    s: "hr s = 0" "pResult s = replicate (length devs) zeroed"
    and e: "EnumerateUSBDevices w g =
        (Return \<lparr>success = (hr (fill_loop devs g 0 s) = 0), pcDevices = length devs,
                 ppResult = Some (pResult (fill_loop devs g 0 s))\<rparr>,
         log SetupDiDestroyDeviceInfoList (fill_loop devs g 0 s))"
    by blast
  let ?a = "pResult (fill_loop devs g 0 s)"
  from s assms(3) have i: "i < length (pResult s)" by simp
  have len: "length ?a = length devs"
    using s by simp
  have path: "wszInterfacePath (?a ! i) = None"
    using fill_loop_path_nil [OF assms(3,4) i, of g 0] s assms(3) by (simp add: zeroed_def)
  have guid: "guidInterface (?a ! i) = g \<or> guidInterface (?a ! i) = 0"
    using fill_loop_guid_cases [OF i, of devs g 0] s assms(3) by (auto simp: zeroed_def)
  have reached: "guidInterface (?a ! i) = g"
    if "\<forall>j < i. \<forall>ifc \<in> set (devs ! j). interface_ok ifc"
  proof -
    from fill_loop_reached_slot [OF s(1) assms(3) i, of g] that
    obtain s' where "length (pResult s') = length (pResult s)"
        "guidInterface (pResult s' ! i) = g"
        "?a ! i = pResult (interface_loop (devs ! i) i 0 s') ! i"
      by auto
    with i show ?thesis
      by (simp add: interface_loop_guid)
  qed
  from len path guid reached show ?thesis
    by (simp add: e)
qed

theorem empty_device_slot_witness:
  "[[sample_interface [0x41]], []] ! 1 = [] \<and>
   interface_ok (sample_interface [0x41]) \<and>
   fst (EnumerateUSBDevices
       \<lparr>class_devs = Inr [[sample_interface [0x41]], []], result_alloc = True\<rparr> 7) =
     Return \<lparr>success = True, pcDevices = 2,
             ppResult = Some [\<lparr>guidInterface = 7, wszInterfacePath = Some [0x41]\<rparr>,
                              \<lparr>guidInterface = 7, wszInterfacePath = None\<rparr>]\<rparr>"
proof -
  let ?w = "\<lparr>class_devs = Inr [[sample_interface [0x41]], []], result_alloc = True\<rparr>"
  have h: "class_devs ?w = Inr [[sample_interface [0x41]], []]" "result_alloc ?w"
    "1 < length [[sample_interface [0x41]], []]" "[[sample_interface [0x41]], []] ! 1 = []"
    by simp_all
  have ok: "interface_ok (sample_interface [0x41])"
    by (simp add: interface_ok_def sample_interface_def)
  have ev: "fst (EnumerateUSBDevices ?w 7) =
      Return \<lparr>success = True, pcDevices = 2,
              ppResult = Some [\<lparr>guidInterface = 7, wszInterfacePath = Some [0x41]\<rparr>,
                               \<lparr>guidInterface = 7, wszInterfacePath = None\<rparr>]\<rparr>"
    by code_simp
  from empty_device_slot [OF h, of 7] ok ev show ?thesis
    by simp
qed

text \<open>
  C5 (code defect). The claim: when the duplication of an interface path fails, the function
  records out-of-memory and stops at once: no further device is processed and no further
  interface of the current device is visited or resolved. The function records
  \<^verbatim>\<open>E_OUTOFMEMORY\<close> and processes no further device, since the fill loop tests \<open>hr\<close>; the inner
  loop of line 115 has no such test and goes on with the remaining interfaces of the device.
  Evaluated for two devices, the first with two interfaces, where the duplication fails for the
  first interface: the second interface is enumerated and resolved, its path is duplicated,
  stored into slot 0 and opened; the second device is not processed.
\<close>

theorem copy_failure_continues_inner_loop:
  "EnumerateUSBDevices
     \<lparr>class_devs = Inr [[(sample_interface [0x41])\<lparr>copy_alloc := False\<rparr>, sample_interface [0x42]],
                        [sample_interface [0x43]]],
      result_alloc = True\<rparr> 1 =
   (Return \<lparr>success = False, pcDevices = 2,
            ppResult = Some [\<lparr>guidInterface = 1, wszInterfacePath = Some [0x42]\<rparr>, zeroed]\<rparr>,
    \<lparr>hr = E_OUTOFMEMORY,
     pResult = [\<lparr>guidInterface = 1, wszInterfacePath = Some [0x42]\<rparr>, zeroed],
     overrun = [],
     trace =
       [SetupDiGetClassDevs True, SetupDiEnumDeviceInfo 0 True, SetupDiEnumDeviceInfo 1 True,
        SetupDiEnumDeviceInfo 2 False, CoTaskMemAlloc_result 48 True, StoreGuid 0,
        SetupDiEnumDeviceInfo 0 True,
        SetupDiEnumDeviceInterfaces 0 0 True, SetupDiGetDeviceInterfaceDetail_size 8,
        CoTaskMemAlloc_detail 8 True, SetupDiGetDeviceInterfaceDetail True,
        CoTaskMemAlloc_string False, StorePath 0, CoTaskMemFree_detail,
        SetupDiEnumDeviceInterfaces 0 1 True, SetupDiGetDeviceInterfaceDetail_size 8,
        CoTaskMemAlloc_detail 8 True, SetupDiGetDeviceInterfaceDetail True,
        CoTaskMemAlloc_string True, StorePath 0, CreateFile True, CloseHandle,
        CoTaskMemFree_detail,
        SetupDiEnumDeviceInterfaces 0 2 False, SetupDiDestroyDeviceInfoList]\<rparr>)"
  by code_simp

text \<open>
  C6 (code defect). The claim: when the allocation of the output array fails after a nonzero
  count, the function returns success = false, a count of 0 and a null array. The branch of
  line 174 would do so, but line 100 runs \<^verbatim>\<open>Zero(pResult, cbResult)\<close> before the test of line
  101: with a null \<open>pResult\<close> and \<open>cbResult > 0\<close> this is a \<^verbatim>\<open>memset\<close> through the null pointer,
  and the function raises an access violation instead of returning. Evaluated for one device.
\<close>

theorem result_alloc_failure_faults:
  "EnumerateUSBDevices \<lparr>class_devs = Inr [[sample_interface [0x41]]], result_alloc = False\<rparr> 1 =
     (AccessViolation,
      \<lparr>hr = S_OK, pResult = [], overrun = [],
       trace = [SetupDiGetClassDevs True, SetupDiEnumDeviceInfo 0 True,
                SetupDiEnumDeviceInfo 1 False, CoTaskMemAlloc_result 24 False,
                SetupDiDestroyDeviceInfoList]\<rparr>)"
  by code_simp

text \<open>
  C7. When the session opens, the output array is allocated and every failing call leaves a
  last-error code other than zero, the function returns success = false as soon as
  \<^verbatim>\<open>CreateFile\<close> fails for an interface whose detail buffer, path resolution and path duplication
  all succeeded. A false success flag therefore does not imply that an enumeration, an
  allocation or a resolution failed.
\<close>

theorem create_file_failure_clears_success:
  assumes "class_devs w = Inr devs" "result_alloc w"
    and "\<forall>d \<in> set devs. \<forall>ifc \<in> set d. errors_set ifc"
    and "d \<in> set devs" "ifc \<in> set d"
    and "detail_alloc ifc" "detail ifc = Inr p" "copy_alloc ifc" "create_file ifc = Some e"
  shows "\<exists>r. fst (EnumerateUSBDevices w g) = Return r \<and> \<not> success r"
proof -
  from Enumerate_filled [OF assms(1,2), of g] obtain s where
    e: "EnumerateUSBDevices w g =
        (Return \<lparr>success = (hr (fill_loop devs g 0 s) = 0), pcDevices = length devs,
                 ppResult = Some (pResult (fill_loop devs g 0 s))\<rparr>,
         log SetupDiDestroyDeviceInfoList (fill_loop devs g 0 s))"
    by blast
  from assms(9) have bad: "\<not> interface_ok ifc"
    by (simp add: interface_ok_def)
  from assms(4) obtain j where j: "j < length devs" "devs ! j = d"
    by (auto simp: in_set_conv_nth)
  have "hr (fill_loop devs g 0 s) \<noteq> 0"
  proof
    assume "hr (fill_loop devs g 0 s) = 0"
    then have "\<forall>ifc \<in> set (devs ! j). interface_ok ifc"
      using fill_loop_hr_0 [OF assms(3), of g 0 s] j by simp
    with j assms(5) bad show False by simp
  qed
  with e show ?thesis by simp
qed

theorem create_file_failure_clears_success_witness:
  "errors_set ((sample_interface [0x41])\<lparr>create_file := Some 5\<rparr>) \<and>
   path_resolved ((sample_interface [0x41])\<lparr>create_file := Some 5\<rparr>) \<and>
   copy_alloc ((sample_interface [0x41])\<lparr>create_file := Some 5\<rparr>) \<and>
   fst (EnumerateUSBDevices
      \<lparr>class_devs = Inr [[(sample_interface [0x41])\<lparr>create_file := Some 5\<rparr>]],
       result_alloc = True\<rparr> 1) =
     Return \<lparr>success = False, pcDevices = 1,
             ppResult = Some [\<lparr>guidInterface = 1, wszInterfacePath = Some [0x41]\<rparr>]\<rparr>"
proof -
  let ?ifc = "(sample_interface [0x41])\<lparr>create_file := Some 5\<rparr>"
  let ?w = "\<lparr>class_devs = Inr [[?ifc]], result_alloc = True\<rparr>"
  have h: "class_devs ?w = Inr [[?ifc]]" "result_alloc ?w"
    "\<forall>d \<in> set [[?ifc]]. \<forall>ifc \<in> set d. errors_set ifc"
    "[?ifc] \<in> set [[?ifc]]" "?ifc \<in> set [?ifc]"
    "detail_alloc ?ifc" "detail ?ifc = Inr [0x41]" "copy_alloc ?ifc" "create_file ?ifc = Some 5"
    by (simp_all add: errors_set_def sample_interface_def)
  have ev: "fst (EnumerateUSBDevices ?w 1) =
      Return \<lparr>success = False, pcDevices = 1,
              ppResult = Some [\<lparr>guidInterface = 1, wszInterfacePath = Some [0x41]\<rparr>]\<rparr>"
    by code_simp
  from create_file_failure_clears_success [OF h, of 1] h ev show ?thesis
    by (simp add: path_resolved_def)
qed

text \<open>
  C8. When the session opens, the output array is allocated, and each of the \<open>n\<close> devices has
  exactly one matching interface for which every call succeeds (size query, buffer allocation,
  detail query, duplication and \<^verbatim>\<open>CreateFile\<close>), the function returns success = true, the count
  \<open>n\<close> and an array of \<open>n\<close> slots; every slot holds the requested class identifier and a path that
  is not null, namely the copy of the device path of the interface.
\<close>

theorem one_interface_per_device:
  assumes "class_devs w = Inr devs" "result_alloc w"
    and "\<forall>d \<in> set devs. \<exists>ifc. d = [ifc] \<and> interface_ok ifc"
  shows "\<exists>r a. fst (EnumerateUSBDevices w g) = Return r \<and> success r \<and>
      pcDevices r = length devs \<and> ppResult r = Some a \<and> length a = length devs \<and>
      (\<forall>i < length devs. guidInterface (a ! i) = g \<and>
         (\<exists>p. wszInterfacePath (a ! i) = Some p \<and> detail (hd (devs ! i)) = Inr p))"
proof -
  from Enumerate_filled [OF assms(1,2), of g] obtain s where
    s: "hr s = 0" "pResult s = replicate (length devs) zeroed"
    and e: "EnumerateUSBDevices w g =
        (Return \<lparr>success = (hr (fill_loop devs g 0 s) = 0), pcDevices = length devs,
                 ppResult = Some (pResult (fill_loop devs g 0 s))\<rparr>,
         log SetupDiDestroyDeviceInfoList (fill_loop devs g 0 s))"
    by blast
  let ?a = "pResult (fill_loop devs g 0 s)"
  from assms(3) have ok: "\<forall>d \<in> set devs. \<forall>ifc \<in> set d. interface_ok ifc"
    by fastforce
  then have "\<forall>d \<in> set devs. \<forall>ifc \<in> set d. errors_set ifc"
    by (simp add: interface_ok_errors_set)
  from fill_loop_hr_0 [OF this, of g 0 s] s(1) ok have succ: "hr (fill_loop devs g 0 s) = 0"
    by auto
  have len: "length ?a = length devs"
    using s by simp
  have slot: "guidInterface (?a ! i) = g \<and>
      (\<exists>p. wszInterfacePath (?a ! i) = Some p \<and> detail (hd (devs ! i)) = Inr p)"
    if i: "i < length devs" for i
  proof -
    from i s have il: "i < length (pResult s)" by simp
    from assms(3) i obtain ifc where ifc: "devs ! i = [ifc]" "interface_ok ifc"
      by (metis nth_mem)
    then obtain p where p: "detail_alloc ifc" "detail ifc = Inr p" "copy_alloc ifc"
      by (auto simp: interface_ok_def split: sum.splits)
    from ok i have "\<forall>j < i. \<forall>ifc \<in> set (devs ! j). interface_ok ifc"
      by (meson less_trans nth_mem)
    with fill_loop_reached_slot [OF s(1) i il, of g]
    obtain s' where s': "length (pResult s') = length (pResult s)"
        "guidInterface (pResult s' ! i) = g"
        "?a ! i = pResult (interface_loop (devs ! i) i 0 s') ! i"
      by auto
    from s' il have "guidInterface (?a ! i) = g"
      by (simp add: interface_loop_guid)
    moreover have "wszInterfacePath (?a ! i) = Some p"
      using s' il ifc p interface_loop_last [of 0 "[ifc]" i s' p] by simp
    ultimately show ?thesis
      using ifc p by simp
  qed
  from succ len slot show ?thesis
    by (simp add: e)
qed

theorem one_interface_per_device_witness:
  "interface_ok (sample_interface [0x41]) \<and> interface_ok (sample_interface [0x42]) \<and>
   fst (EnumerateUSBDevices
      \<lparr>class_devs = Inr [[sample_interface [0x41]], [sample_interface [0x42]]],
       result_alloc = True\<rparr> 1) =
     Return \<lparr>success = True, pcDevices = 2,
             ppResult = Some [\<lparr>guidInterface = 1, wszInterfacePath = Some [0x41]\<rparr>,
                              \<lparr>guidInterface = 1, wszInterfacePath = Some [0x42]\<rparr>]\<rparr>"
proof -
  let ?devs = "[[sample_interface [0x41]], [sample_interface [0x42]]]"
  let ?w = "\<lparr>class_devs = Inr ?devs, result_alloc = True\<rparr>"
  have ok: "interface_ok (sample_interface [0x41])" "interface_ok (sample_interface [0x42])"
    by (simp_all add: interface_ok_def sample_interface_def)
  have h: "class_devs ?w = Inr ?devs" "result_alloc ?w"
    "\<forall>d \<in> set ?devs. \<exists>ifc. d = [ifc] \<and> interface_ok ifc"
    using ok by simp_all
  have ev: "fst (EnumerateUSBDevices ?w 1) =
      Return \<lparr>success = True, pcDevices = 2,
              ppResult = Some [\<lparr>guidInterface = 1, wszInterfacePath = Some [0x41]\<rparr>,
                               \<lparr>guidInterface = 1, wszInterfacePath = Some [0x42]\<rparr>]\<rparr>"
    by code_simp
  from one_interface_per_device [OF h, of 1] ok ev show ?thesis
    by simp
qed

text \<open>
  C9. When the session opens and there is no device, the function returns success = true and
  the count 0; the array is empty: a block of no slots when the allocation of zero bytes
  returns one, a null pointer otherwise.
\<close>

theorem no_devices:
  assumes "class_devs w = Inr []"
  shows "fst (EnumerateUSBDevices w g) =
     Return \<lparr>success = True, pcDevices = 0,
             ppResult = (if result_alloc w then Some [] else None)\<rparr>"
proof (cases "result_alloc w")
  case True
  from Enumerate_filled [OF assms True, of g] obtain s where
    s: "hr s = 0" "pResult s = replicate (length ([] :: interface list list)) zeroed"
    and e: "EnumerateUSBDevices w g =
        (Return \<lparr>success = (hr (fill_loop [] g 0 s) = 0), pcDevices = length ([] :: interface list list),
                 ppResult = Some (pResult (fill_loop [] g 0 s))\<rparr>,
         log SetupDiDestroyDeviceInfoList (fill_loop [] g 0 s))"
    by blast
  from s have "hr (fill_loop [] g 0 s) = 0" "pResult (fill_loop [] g 0 s) = []"
    by (simp_all add: fill_loop_end)
  with e True show ?thesis by simp
next
  case False
  from Enumerate_alloc_failed [OF assms False, of g] False show ?thesis
    by auto
qed

theorem no_devices_witness:
  "fst (EnumerateUSBDevices \<lparr>class_devs = Inr [], result_alloc = True\<rparr> 1) =
     Return \<lparr>success = True, pcDevices = 0, ppResult = Some []\<rparr> \<and>
   fst (EnumerateUSBDevices \<lparr>class_devs = Inr [], result_alloc = False\<rparr> 1) =
     Return \<lparr>success = True, pcDevices = 0, ppResult = None\<rparr>"
  using no_devices [of "\<lparr>class_devs = Inr [], result_alloc = True\<rparr>" 1]
    no_devices [of "\<lparr>class_devs = Inr [], result_alloc = False\<rparr>" 1]
  by simp




end
